theory Spec2Isabelle
  imports Main "HOL-Library.Sublist"
begin

section \<open>Data model\<close>

text \<open>
  The command tree of \<^verbatim>\<open>cmd.go\<close>. Go strings are modelled as HOL strings in which
  every character stands for one rune, the rune of the character's code (0 to 255). The
  parser's byte-level tests \<^verbatim>\<open>s[0] != '-'\<close> and \<^verbatim>\<open>s[1] == '-'\<close> look at ASCII positions,
  where bytes and runes coincide, and its \<^verbatim>\<open>len(s) == 1\<close> stands beside \<^verbatim>\<open>s[0] != '-'\<close>,
  which holds for every token of one rune that is longer than one byte. Where the code
  counts bytes otherwise, the model counts them with \<open>byte_len\<close>. Values of Go's \<^verbatim>\<open>any\<close> (a flag's \<^verbatim>\<open>Def\<close> and
  \<^verbatim>\<open>NoArgDef\<close>) are a type parameter, with \<open>None\<close> for \<^verbatim>\<open>nil\<close>.
\<close>

text \<open>The flag types named in \<^verbatim>\<open>cmd.go\<close>. \<^verbatim>\<open>Type\<close> is a string type in Go
  (\<^verbatim>\<open>buildFlagOpts\<close> converts a tag's text to it); \<open>OtherT\<close> is any other name.\<close>

datatype Type =
    StringT | BytesT | Base64T | HexT | BoolT | ByteT | RuneT
  | Int64T | Int32T | Int16T | Int8T | IntT
  | Uint64T | Uint32T | Uint16T | Uint8T | UintT
  | Float64T | Float32T | Complex128T | Complex64T
  | TimestampT | DateTimeT | DateT | DurationT | PathT | CountT
  | BigIntT | BigFloatT | BigRatT | AddrT | AddrPortT | CIDRT
  | URLT | UUIDT | ColorT | SliceT | MapT | HookT
  | OtherT string

text \<open>The struct \<^verbatim>\<open>Flag\<close>; the bound variables (\<^verbatim>\<open>Binds\<close>) and the config keys
  play no part in parsing and are left out.\<close>

record 'a Flag =
  Type :: Type
  MapKey :: Type
  Elem :: Type
  Name :: string
  Usage :: string
  Short :: string
  Aliases :: "string list"
  Spec :: string
  Def :: "'a option"
  NoArg :: bool
  NoArgDef :: "'a option"
  Section :: int
  Hidden :: bool
  Deprecated :: bool
  Special :: string

text \<open>\<^verbatim>\<open>Suggest\<close> and \<^verbatim>\<open>CompCommands\<close> read \<^verbatim>\<open>MinDist\<close> from the command's help when
  that help is a \<^verbatim>\<open>*CommandHelp\<close>.\<close>

record CommandHelp =
  MinDist :: int

text \<open>
  The struct \<^verbatim>\<open>Command\<close>. Its fields carry the prefix \<open>c\<close> because \<^verbatim>\<open>Flag\<close> has
  fields of the same names. \<open>cFlags\<close> is \<open>None\<close> for a nil \<^verbatim>\<open>*FlagSet\<close>; \<open>cHelp\<close> is
  \<open>None\<close> when \<^verbatim>\<open>Help\<close> is nil or not a \<^verbatim>\<open>*CommandHelp\<close>. The tree owns its children;
  the \<^verbatim>\<open>Parent\<close> back-reference, the exec func and the argument validators are not
  represented.
\<close>

datatype 'a Command = Command
  (cName : string)
  (cUsage : string)
  (cAliases : "string list")
  (cSuggested : "string list")
  (cFlags : "'a Flag list option")
  (cCommands : "'a Command list")
  (cHelp : "CommandHelp option")
  (cSpecial : string)

section \<open>Command lookup\<close>

text \<open>\<^verbatim>\<open>Command.Command\<close>: the first child, in declaration order, whose name or one of
  whose aliases is the name.\<close>

fun Command_loop :: "'a Command list \<Rightarrow> string \<Rightarrow> 'a Command option" where
  "Command_loop [] name = None"
| "Command_loop (c # cs) name =
     (if cName c = name \<or> name \<in> set (cAliases c) then Some c else Command_loop cs name)"

definition Command_Command :: "'a Command \<Rightarrow> string \<Rightarrow> 'a Command option" where
  "Command_Command cmd name = Command_loop (cCommands cmd) name"

text \<open>\<^verbatim>\<open>Command.Flag(name, parents, short)\<close> on the command's own flag set, which is the
  call with \<^verbatim>\<open>parents = false\<close>: the first flag whose long name (when \<open>short\<close> is false),
  short name (when it is true) or alias of the matching length is the name. The walk to
  the parents needs the back-reference, which the tree does not carry. The alias test
  \<^verbatim>\<open>len(s) == 1\<close> counts bytes: \<open>byte_len\<close> is the length of the UTF-8 encoding, one byte
  for a rune below 128 and two for the others a character can stand for.\<close>

definition byte_len :: "string \<Rightarrow> nat" where
  "byte_len s = sum_list (map (\<lambda>c. if digit7 c then 2 else 1) s)"

definition flag_matches :: "string \<Rightarrow> bool \<Rightarrow> 'a Flag \<Rightarrow> bool" where
  "flag_matches name short g =
     (Name g = name \<and> \<not> short \<or> Short g = name \<and> short \<or>
      list_ex (\<lambda>s. s = name \<and> ((byte_len s = 1) = short)) (Aliases g))"

definition Command_Flag :: "'a Command \<Rightarrow> string \<Rightarrow> bool \<Rightarrow> 'a Flag option" where
  "Command_Flag cmd name short =
     (case cFlags cmd of None \<Rightarrow> None | Some gs \<Rightarrow> find (flag_matches name short) gs)"

text \<open>\<^verbatim>\<open>Command.Lookup\<close>: the loop variable \<^verbatim>\<open>ret\<close> is the first argument.\<close>

fun Lookup :: "'a Command \<Rightarrow> string list \<Rightarrow> 'a Command" where
  "Lookup ret [] = ret"
| "Lookup ret (name # names) =
     (case Command_Command ret name of
        Some c \<Rightarrow> Lookup c names
      | None \<Rightarrow> ret)"

text \<open>
  The spec's reading of a path, for comparison: \<open>resolve_path\<close> resolves every name of
  the path against the current cursor, by exact child name or exact alias, first match in
  declaration order, and has no result when some name has no match.
\<close>

definition name_matches :: "string \<Rightarrow> 'a Command \<Rightarrow> bool" where
  "name_matches name c = (cName c = name \<or> name \<in> set (cAliases c))"

fun resolve_path :: "'a Command \<Rightarrow> string list \<Rightarrow> 'a Command option" where
  "resolve_path c [] = Some c"
| "resolve_path c (name # names) =
     (case find (name_matches name) (cCommands c) of
        None \<Rightarrow> None
      | Some d \<Rightarrow> resolve_path d names)"

section \<open>Errors\<close>

text \<open>
  Errors are values. \<open>FlagError\<close> is \<^verbatim>\<open>newFlagError\<close>'s wrapper (the dash prefix, the
  name, the wrapped error), \<open>CommandError\<close> is \<^verbatim>\<open>newCommandError\<close>'s, \<open>PopulateError\<close>
  is the \<^verbatim>\<open>cannot populate %s with %q: %w\<close> of \<^verbatim>\<open>Populate\<close>, \<open>SuggestionError\<close> is
  \<^verbatim>\<open>NewSuggestionError(cmd, arg, c)\<close>, and \<open>SuggestionErrorMessage\<close> is the
  \<^verbatim>\<open>fmt.Errorf(text.SuggestionErrorMessage, err, arg, name)\<close> of \<^verbatim>\<open>Suggest\<close>.
  \<open>ErrOther\<close> stands for the errors of the collaborators (\<^verbatim>\<open>Expand\<close>, \<^verbatim>\<open>Vars.Set\<close>),
  \<open>TypeMismatch\<close> for a value's failed coercion, with the flag's name and the raw text.
\<close>

datatype 'a error =
    ErrUnknownFlag
  | ErrMissingArgument
  | ErrUnknownCommand
  | ErrInvalidValue
  | ErrExit
  | ErrOther string
  | TypeMismatch string string
  | FlagError string string "'a error"
  | CommandError string "'a error"
  | PopulateError string string "'a error"
  | SuggestionError "'a Command" string "'a Command"
  | SuggestionErrorMessage "'a error" string string

definition newFlagError :: "string \<Rightarrow> 'a error \<Rightarrow> 'a error" where
  "newFlagError name err =
     (if length name = 1 then FlagError ''-'' name err else FlagError ''--'' name err)"

definition newCommandError :: "string \<Rightarrow> 'a error \<Rightarrow> 'a error" where
  "newCommandError name err = CommandError name err"

section \<open>Default population\<close>

text \<open>
  \<^verbatim>\<open>Vars\<close> is a Go map from flag names to values, mutated in place: the model passes the
  map in and returns it, also beside an error. \<^verbatim>\<open>Vars.Set\<close> and \<^verbatim>\<open>Context.Expand\<close> are
  not among the sources; the functions that call them take them as the parameters
  \<open>vset\<close> (the map, the flag, the raw text, the explicit-assignment mark) and \<open>expand\<close>.
\<close>

type_synonym 'v Vars = "string \<rightharpoonup> 'v"

type_synonym ('a, 'v) setter =
  "'v Vars \<Rightarrow> 'a Flag \<Rightarrow> string \<Rightarrow> bool \<Rightarrow> 'v Vars \<times> 'a error option"

text \<open>The loop of \<^verbatim>\<open>Command.Populate\<close> over the flags of the flag set.\<close>

fun Populate_loop ::
  "('a \<Rightarrow> 'a error + string) \<Rightarrow> ('a, 'v) setter \<Rightarrow> bool \<Rightarrow> bool \<Rightarrow>
   'a Flag list \<Rightarrow> 'v Vars \<Rightarrow> 'v Vars \<times> 'a error option" where
  "Populate_loop expand vset all overwrite [] vars = (vars, None)"
| "Populate_loop expand vset all overwrite (g # gs) vars =
     (let vars1 = (if vars (Name g) \<noteq> None \<and> overwrite then vars(Name g := None) else vars)
      in if Type g = HookT \<or> (Def g = None \<and> \<not> all)
         then Populate_loop expand vset all overwrite gs vars1
         else (case (case Def g of None \<Rightarrow> Inr [] | Some d \<Rightarrow> expand d) of
                 Inl err \<Rightarrow> (vars1, Some err)
               | Inr val \<Rightarrow>
                   (case vset vars1 g val False of
                      (vars2, Some err) \<Rightarrow> (vars2, Some (PopulateError (Name g) val err))
                    | (vars2, None) \<Rightarrow> Populate_loop expand vset all overwrite gs vars2)))"

definition Populate ::
  "('a \<Rightarrow> 'a error + string) \<Rightarrow> ('a, 'v) setter \<Rightarrow> 'a Command \<Rightarrow> bool \<Rightarrow> bool \<Rightarrow>
   'v Vars \<Rightarrow> 'v Vars \<times> 'a error option" where
  "Populate expand vset cmd all overwrite vars =
     (case cFlags cmd of
        None \<Rightarrow> (vars, None)
      | Some gs \<Rightarrow> Populate_loop expand vset all overwrite gs vars)"

section \<open>Token parser\<close>

text \<open>
  The parser's one-argument \<^verbatim>\<open>cmd.Flag(arg)\<close> and \<^verbatim>\<open>toBoolString\<close> are not among the
  sources; the parsing functions take them as the parameters \<open>flagOf\<close> and
  \<open>toBoolString\<close>. \<open>Cut\<close> is \<^verbatim>\<open>strings.Cut\<close> for a separator of one character,
  \<open>TrimPrefix\<close> is \<^verbatim>\<open>strings.TrimPrefix\<close>, \<open>Index\<close> is \<^verbatim>\<open>slices.Index\<close>.
\<close>

fun Cut :: "string \<Rightarrow> char \<Rightarrow> string \<times> string \<times> bool" where
  "Cut [] sep = ([], [], False)"
| "Cut (c # cs) sep =
     (if c = sep then ([], cs, True)
      else (case Cut cs sep of (before, after, found) \<Rightarrow> (c # before, after, found)))"

definition TrimPrefix :: "string \<Rightarrow> string \<Rightarrow> string" where
  "TrimPrefix s p = (if prefix p s then drop (length p) s else s)"

fun Index :: "'b list \<Rightarrow> 'b \<Rightarrow> int" where
  "Index [] x = - 1"
| "Index (y # ys) x =
     (if y = x then 0 else (let i = Index ys x in if i < 0 then - 1 else i + 1))"

text \<open>The call \<^verbatim>\<open>vars.Set(g, value, true)\<close> with which \<^verbatim>\<open>parseLong\<close> and \<^verbatim>\<open>parseShort\<close>
  commit a value, its error wrapped by \<^verbatim>\<open>newFlagError\<close>, and the return of the remaining
  arguments.\<close>

definition set_explicit ::
  "('a, 'v) setter \<Rightarrow> 'a Flag \<Rightarrow> string \<Rightarrow> string \<Rightarrow> string list \<Rightarrow> 'v Vars \<Rightarrow>
   'v Vars \<times> ('a error + string list)" where
  "set_explicit vset g arg val args vars =
     (case vset vars g val True of
        (vars', Some err) \<Rightarrow> (vars', Inl (newFlagError arg err))
      | (vars', None) \<Rightarrow> (vars', Inr args))"

definition parseLong ::
  "('a Command \<Rightarrow> string \<Rightarrow> 'a Flag option) \<Rightarrow> ('a option \<Rightarrow> string) \<Rightarrow> ('a, 'v) setter \<Rightarrow>
   'a Command \<Rightarrow> string \<Rightarrow> string list \<Rightarrow> 'v Vars \<Rightarrow> 'v Vars \<times> ('a error + string list)" where
  "parseLong flagOf toBoolString vset cmd s args vars =
     (case Cut (TrimPrefix s ''--'') CHR ''='' of
        (arg, val, ok) \<Rightarrow>
          (case flagOf cmd arg of
             None \<Rightarrow> (vars, Inl (newFlagError arg ErrUnknownFlag))
           | Some g \<Rightarrow>
               if ok then set_explicit vset g arg val args vars
               else if NoArg g then set_explicit vset g arg (toBoolString (Def g)) args vars
               else if length args \<noteq> 0 then set_explicit vset g arg (hd args) (tl args) vars
               else (vars, Inl (newFlagError arg ErrMissingArgument))))"

text \<open>The loop of \<^verbatim>\<open>parseShort\<close> over the runes \<open>v\<close> of the cluster. After a no-argument
  flag with an \<^verbatim>\<open>=\<close> right behind it, \<open>v\<close> is cut to its last rune, and the loop's
  \<^verbatim>\<open>v = v[1:]\<close> then empties it.\<close>

function parseShort_loop ::
  "('a Command \<Rightarrow> string \<Rightarrow> 'a Flag option) \<Rightarrow> ('a option \<Rightarrow> string) \<Rightarrow> ('a, 'v) setter \<Rightarrow>
   'a Command \<Rightarrow> string \<Rightarrow> string list \<Rightarrow> 'v Vars \<Rightarrow> 'v Vars \<times> ('a error + string list)" where
  "parseShort_loop flagOf toBoolString vset cmd v args vars =
     (if length v = 0 then (vars, Inr args)
      else
        (let arg = [hd v] in
         case flagOf cmd arg of
           None \<Rightarrow> (vars, Inl (newFlagError arg ErrUnknownFlag))
         | Some g \<Rightarrow>
             if NoArg g then
               (let eq = (Index v CHR ''='' = 1);
                    val = (if eq then drop 2 v else toBoolString (Def g));
                    v' = (if eq then drop (length v - 1) v else v)
                in case vset vars g val True of
                     (vars', Some err) \<Rightarrow> (vars', Inl (newFlagError arg err))
                   | (vars', None) \<Rightarrow>
                       parseShort_loop flagOf toBoolString vset cmd (drop 1 v') args vars')
             else if length (drop 1 v) = 0 \<and> length args = 0 then
               (vars, Inl (newFlagError arg ErrMissingArgument))
             else if length (drop 1 v) \<noteq> 0 then
               (let v' = (if Index v CHR ''='' = 1 then drop 1 v else v)
                in set_explicit vset g arg (drop 1 v') args vars)
             else set_explicit vset g arg (hd args) (tl args) vars))"
  by pat_completeness auto
termination
  by (relation "measure (\<lambda>(flagOf, toBoolString, vset, cmd, v, args, vars). length v)")
     (auto split: if_splits)

declare parseShort_loop.simps [simp del]

definition parseShort ::
  "('a Command \<Rightarrow> string \<Rightarrow> 'a Flag option) \<Rightarrow> ('a option \<Rightarrow> string) \<Rightarrow> ('a, 'v) setter \<Rightarrow>
   'a Command \<Rightarrow> string \<Rightarrow> string list \<Rightarrow> 'v Vars \<Rightarrow> 'v Vars \<times> ('a error + string list)" where
  "parseShort flagOf toBoolString vset cmd s args vars =
     parseShort_loop flagOf toBoolString vset cmd (drop 1 s) args vars"

text \<open>
  The loop of \<^verbatim>\<open>parse\<close>. A state is the cursor command, the remaining arguments, the
  positional list \<^verbatim>\<open>v\<close> and the vars; \<open>parse_step\<close> is one iteration (or the return when
  no argument is left), \<open>parse_loop\<close> runs the iterations, and \<open>parse\<close> starts them with
  no positional. On an error the Go code returns no command; the vars it has mutated by
  then are returned beside the error.
\<close>

type_synonym ('a, 'v) pstate = "'a Command \<times> string list \<times> string list \<times> 'v Vars"

datatype ('a, 'v) step =
    Next "('a, 'v) pstate"
  | Return "'v Vars \<times> ('a error + 'a Command \<times> string list)"

definition parse_step ::
  "('a Command \<Rightarrow> string \<Rightarrow> 'a Flag option) \<Rightarrow> ('a option \<Rightarrow> string) \<Rightarrow>
   ('a \<Rightarrow> 'a error + string) \<Rightarrow> ('a, 'v) setter \<Rightarrow> ('a, 'v) pstate \<Rightarrow> ('a, 'v) step" where
  "parse_step flagOf toBoolString expand vset st =
     (case st of (cmd, args, v, vars) \<Rightarrow>
        (case args of
           [] \<Rightarrow> Return (vars, Inr (cmd, v))
         | s # args \<Rightarrow>
             if length s = 0 \<or> length s = 1 \<or> s ! 0 \<noteq> CHR ''-'' then
               (case (if length v = 0 then Command_Command cmd s else None) of
                  Some c \<Rightarrow>
                    (case Populate expand vset c False False vars of
                       (vars', Some err) \<Rightarrow> Return (vars', Inl (newCommandError (cName c) err))
                     | (vars', None) \<Rightarrow> Next (c, args, v, vars'))
                | None \<Rightarrow> Next (cmd, args, v @ [s], vars))
             else if s = ''--'' then Return (vars, Inr (cmd, v @ args))
             else if s ! 1 = CHR ''-'' then
               (case parseLong flagOf toBoolString vset cmd s args vars of
                  (vars', Inl err) \<Rightarrow> Return (vars', Inl err)
                | (vars', Inr args') \<Rightarrow> Next (cmd, args', v, vars'))
             else
               (case parseShort flagOf toBoolString vset cmd s args vars of
                  (vars', Inl err) \<Rightarrow> Return (vars', Inl err)
                | (vars', Inr args') \<Rightarrow> Next (cmd, args', v, vars'))))"

lemma set_explicit_args:
  "set_explicit vset g arg val args vars = (vars', Inr args') \<Longrightarrow> args' = args"
  by (auto simp: set_explicit_def split: prod.splits option.splits)

lemma parseLong_length:
  "parseLong flagOf toBoolString vset cmd s args vars = (vars', Inr args') \<Longrightarrow>
   length args' \<le> length args"
  by (auto simp: parseLong_def split: prod.splits option.splits if_splits
      dest!: set_explicit_args)

lemma parseShort_loop_length:
  "parseShort_loop flagOf toBoolString vset cmd v args vars = (vars', Inr args') \<Longrightarrow>
   length args' \<le> length args"
proof (induction flagOf toBoolString vset cmd v args vars
    rule: parseShort_loop.induct)
  case (1 flagOf toBoolString vset cmd v args vars)
  from "1.prems" show ?case
    apply (subst (asm) parseShort_loop.simps)
    apply (auto simp: Let_def split: if_splits option.splits prod.splits
        dest!: set_explicit_args)
    using "1.IH" apply (fastforce simp: Let_def)+
    done
qed

lemma parse_step_decreases:
  "parse_step flagOf toBoolString expand vset (cmd, args, v, vars) =
     Next (cmd', args', v', vars') \<Longrightarrow> length args' < length args"
  by (auto simp: parse_step_def parseShort_def
      split: list.splits if_splits option.splits prod.splits sum.splits
      dest: parseLong_length parseShort_loop_length)

function parse_loop ::
  "('a Command \<Rightarrow> string \<Rightarrow> 'a Flag option) \<Rightarrow> ('a option \<Rightarrow> string) \<Rightarrow>
   ('a \<Rightarrow> 'a error + string) \<Rightarrow> ('a, 'v) setter \<Rightarrow> ('a, 'v) pstate \<Rightarrow>
   'v Vars \<times> ('a error + 'a Command \<times> string list)" where
  "parse_loop flagOf toBoolString expand vset st =
     (case parse_step flagOf toBoolString expand vset st of
        Next st' \<Rightarrow> parse_loop flagOf toBoolString expand vset st'
      | Return r \<Rightarrow> r)"
  by pat_completeness auto
termination
  by (relation "measure (\<lambda>(flagOf, toBoolString, expand, vset, cmd, args, v, vars). length args)")
     (auto dest: parse_step_decreases)

declare parse_loop.simps [simp del]

definition parse ::
  "('a Command \<Rightarrow> string \<Rightarrow> 'a Flag option) \<Rightarrow> ('a option \<Rightarrow> string) \<Rightarrow>
   ('a \<Rightarrow> 'a error + string) \<Rightarrow> ('a, 'v) setter \<Rightarrow> 'a Command \<Rightarrow> string list \<Rightarrow> 'v Vars \<Rightarrow>
   'v Vars \<times> ('a error + 'a Command \<times> string list)" where
  "parse flagOf toBoolString expand vset cmd args vars =
     parse_loop flagOf toBoolString expand vset (cmd, args, [], vars)"

text \<open>One iteration of the loop leads from a state to the next.\<close>

definition parse_next ::
  "('a Command \<Rightarrow> string \<Rightarrow> 'a Flag option) \<Rightarrow> ('a option \<Rightarrow> string) \<Rightarrow>
   ('a \<Rightarrow> 'a error + string) \<Rightarrow> ('a, 'v) setter \<Rightarrow> ('a, 'v) pstate \<Rightarrow> ('a, 'v) pstate \<Rightarrow> bool" where
  "parse_next flagOf toBoolString expand vset st st' =
     (parse_step flagOf toBoolString expand vset st = Next st')"

text \<open>The scanner's first case: the token is empty, a single character, or does not
  start with a dash.\<close>

definition bare :: "string \<Rightarrow> bool" where
  "bare s = (length s = 0 \<or> length s = 1 \<or> s ! 0 \<noteq> CHR ''-'')"

section \<open>Suggestions and completion\<close>

text \<open>
  \<^verbatim>\<open>Ldist\<close>, \<^verbatim>\<open>DefaultMinDist\<close> and the types \<^verbatim>\<open>Completion\<close> and \<^verbatim>\<open>CompDirective\<close> are not
  among the sources. \<^verbatim>\<open>Suggest\<close> and \<^verbatim>\<open>CompCommands\<close> take the distance, the default
  threshold and \<^verbatim>\<open>strings.ToLower\<close> as the parameters \<open>ldist\<close>, \<open>defaultMinDist\<close> and
  \<open>toLower\<close>; a completion is the pair that \<^verbatim>\<open>NewCompletion\<close> is given.
\<close>

datatype Completion = NewCompletion (CompName : string) (CompUsage : string)

datatype CompDirective = CompNoFileComp | CompError

text \<open>Modelled from the spec: \<^verbatim>\<open>prepend\<close> is not among the sources. With the spec's
  order of a child's candidates (its name, its aliases, then its suggested names) and the
  help's \<^verbatim>\<open>prepend(Aliases, Name)\<close>, it puts the given elements before the slice.\<close>

definition prepend :: "'b list \<Rightarrow> 'b list \<Rightarrow> 'b list" where
  "prepend v a = a @ v"

text \<open>The threshold of \<^verbatim>\<open>Suggest\<close> and \<^verbatim>\<open>CompCommands\<close>.\<close>

definition minDist_of :: "int \<Rightarrow> 'a Command \<Rightarrow> int" where
  "minDist_of defaultMinDist cmd =
     (let minDist = (case cHelp cmd of Some help \<Rightarrow> MinDist help | None \<Rightarrow> 0)
      in if minDist \<le> 0 then defaultMinDist else minDist)"

fun Suggest_names :: "(string \<Rightarrow> string \<Rightarrow> int) \<Rightarrow> (string \<Rightarrow> string) \<Rightarrow> int \<Rightarrow> string \<Rightarrow>
    string list \<Rightarrow> bool" where
  "Suggest_names ldist toLower minDist arg [] = False"
| "Suggest_names ldist toLower minDist arg (name # names) =
     (if ldist arg (toLower name) \<le> minDist then True
      else Suggest_names ldist toLower minDist arg names)"

fun Suggest_loop :: "(string \<Rightarrow> string \<Rightarrow> int) \<Rightarrow> (string \<Rightarrow> string) \<Rightarrow> int \<Rightarrow> 'a Command \<Rightarrow>
    string \<Rightarrow> string \<Rightarrow> 'a Command list \<Rightarrow> 'a error" where
  "Suggest_loop ldist toLower minDist cmd arg0 arg [] =
     SuggestionErrorMessage ErrUnknownCommand arg0 (cName cmd)"
| "Suggest_loop ldist toLower minDist cmd arg0 arg (c # cs) =
     (if Suggest_names ldist toLower minDist arg
           (prepend (cAliases c) [cName c] @ cSuggested c)
      then SuggestionError cmd arg0 c
      else Suggest_loop ldist toLower minDist cmd arg0 arg cs)"

definition Suggest :: "(string \<Rightarrow> string \<Rightarrow> int) \<Rightarrow> (string \<Rightarrow> string) \<Rightarrow> int \<Rightarrow> 'a Command \<Rightarrow>
    string list \<Rightarrow> 'a error option" where
  "Suggest ldist toLower defaultMinDist cmd args =
     (if length args = 0 then None
      else Some (Suggest_loop ldist toLower (minDist_of defaultMinDist cmd) cmd
                   (hd args) (toLower (hd args)) (cCommands cmd)))"

text \<open>\<^verbatim>\<open>addComp\<close>: the seen-map \<^verbatim>\<open>m\<close> is returned with the completions.\<close>

definition addComp :: "Completion list \<Rightarrow> 'a Command \<Rightarrow> (string \<rightharpoonup> bool) \<Rightarrow> bool \<Rightarrow>
    Completion list \<times> (string \<rightharpoonup> bool) \<times> bool" where
  "addComp comps cmd m b =
     (if m (cName cmd) = Some True then (comps, m, True)
      else if b then (comps @ [NewCompletion (cName cmd) (cUsage cmd)], m(cName cmd \<mapsto> True), True)
      else (comps, m, False))"

text \<open>The body of each loop of \<^verbatim>\<open>CompCommands\<close> is a chain of \<^verbatim>\<open>addComp\<close> calls, each
  followed by \<^verbatim>\<open>continue\<close> when it reports \<^verbatim>\<open>ok\<close>: \<open>addComp_chain\<close> runs the chain for
  the tests of one child, \<open>comp_pass\<close> runs one loop over the children.\<close>

fun addComp_chain :: "Completion list \<Rightarrow> 'a Command \<Rightarrow> (string \<rightharpoonup> bool) \<Rightarrow> bool list \<Rightarrow>
    Completion list \<times> (string \<rightharpoonup> bool)" where
  "addComp_chain comps c m [] = (comps, m)"
| "addComp_chain comps c m (b # bs) =
     (case addComp comps c m b of
        (comps', m', ok) \<Rightarrow> if ok then (comps', m') else addComp_chain comps' c m' bs)"

fun comp_pass :: "('a Command \<Rightarrow> bool list) \<Rightarrow> 'a Command list \<Rightarrow>
    Completion list \<times> (string \<rightharpoonup> bool) \<Rightarrow> Completion list \<times> (string \<rightharpoonup> bool)" where
  "comp_pass tests [] st = st"
| "comp_pass tests (c # cs) st =
     comp_pass tests cs (addComp_chain (fst st) c (snd st) (tests c))"

text \<open>The tests of the three loops: exact or case-insensitive name or alias; prefix;
  distance.\<close>

definition exact_tests :: "(string \<Rightarrow> string) \<Rightarrow> string \<Rightarrow> 'a Command \<Rightarrow> bool list" where
  "exact_tests toLower name c =
     [name = cName c,
      list_ex (\<lambda>s. name = s) (cAliases c),
      toLower (cName c) = toLower name,
      list_ex (\<lambda>s. toLower name = toLower s) (cAliases c)]"

definition prefix_tests :: "(string \<Rightarrow> string) \<Rightarrow> string \<Rightarrow> 'a Command \<Rightarrow> bool list" where
  "prefix_tests toLower name c =
     [prefix (toLower name) (toLower (cName c)),
      list_ex (\<lambda>s. prefix (toLower name) (toLower s)) (cAliases c)]"

definition dist_tests :: "(string \<Rightarrow> string \<Rightarrow> int) \<Rightarrow> (string \<Rightarrow> string) \<Rightarrow> int \<Rightarrow> string \<Rightarrow>
    'a Command \<Rightarrow> bool list" where
  "dist_tests ldist toLower minDist name c =
     [ldist (toLower (cName c)) (toLower name) \<le> minDist,
      list_ex (\<lambda>s. ldist (toLower s) (toLower name) \<le> minDist) (cAliases c)]"

definition CompCommands :: "(string \<Rightarrow> string \<Rightarrow> int) \<Rightarrow> (string \<Rightarrow> string) \<Rightarrow> int \<Rightarrow> 'a Command \<Rightarrow>
    string \<Rightarrow> Completion list \<times> CompDirective" where
  "CompCommands ldist toLower defaultMinDist cmd name =
     (let st1 = comp_pass (exact_tests toLower name) (cCommands cmd) ([], Map.empty);
          st2 = comp_pass (prefix_tests toLower name) (cCommands cmd) st1;
          minDist = minDist_of defaultMinDist cmd;
          st3 = (if minDist \<noteq> 0
                 then comp_pass (dist_tests ldist toLower minDist name) (cCommands cmd) st2
                 else st2)
      in (fst st3, CompNoFileComp))"

section \<open>Collaborators described by the spec\<close>

text \<open>
  A value of the vars as the spec describes it: the typed data it holds (one datum for a
  scalar, the accumulated data for a list or a map) and whether it was assigned
  explicitly.
\<close>

record 'd Value =
  held :: "'d list"
  wasSet :: bool

text \<open>Modelled from the spec: \<^verbatim>\<open>Vars.Set(flag, rawText, isExplicitAssignment)\<close> is not
  among the sources. Section 4.2: a hook holds no data and its action is triggered at
  assignment time; the raw text is parsed for the flag's type and a malformed text is a
  typed error with the flag's identity and the raw text; for explicit assignments lists
  and maps accumulate and scalars overwrite; for default population the overwrite is
  suppressed if an explicit value already exists. \<open>parseText\<close> is the parse-from-string
  of the flag's type and \<open>action\<close> the hook's action.\<close>

definition Vars_Set ::
  "('a Flag \<Rightarrow> string \<Rightarrow> 'd option) \<Rightarrow> ('a Flag \<Rightarrow> 'a error option) \<Rightarrow> ('a, 'd Value) setter" where
  "Vars_Set parseText action vars g rawText isExplicitAssignment =
     (if Type g = HookT then (vars, action g)
      else if \<not> isExplicitAssignment \<and>
              (case vars (Name g) of Some x \<Rightarrow> wasSet x | None \<Rightarrow> False)
      then (vars, None)
      else
        (case parseText g rawText of
           None \<Rightarrow> (vars, Some (TypeMismatch (Name g) rawText))
         | Some d \<Rightarrow>
             if isExplicitAssignment \<and> (Type g = SliceT \<or> Type g = MapT)
             then (vars(Name g \<mapsto>
                     \<lparr>held = (case vars (Name g) of Some x \<Rightarrow> held x | None \<Rightarrow> []) @ [d],
                      wasSet = True\<rparr>), None)
             else (vars(Name g \<mapsto> \<lparr>held = [d], wasSet = isExplicitAssignment\<rparr>), None)))"

text \<open>The names that hold an explicitly assigned value.\<close>

definition explicit_keys :: "'d Value Vars \<Rightarrow> string set" where
  "explicit_keys vars = {k. \<exists>x. vars k = Some x \<and> wasSet x}"

text \<open>Modelled from the spec: \<^verbatim>\<open>Ldist\<close> is not among the sources. Section 4.4: the
  Levenshtein recurrence with insertion, deletion and substitution at cost 1 each and no
  transposition; the callers fold the case.\<close>

fun Ldist :: "string \<Rightarrow> string \<Rightarrow> int" where
  "Ldist [] b = int (length b)"
| "Ldist a [] = int (length a)"
| "Ldist (x # a) (y # b) =
     min (min (Ldist a (y # b) + 1) (Ldist (x # a) b + 1))
         (Ldist a b + (if x = y then 0 else 1))"

text \<open>\<^verbatim>\<open>strings.ToLower\<close> on the runes a character can stand for: the upper-case
  letters among the code points 0 to 255 are A to Z, U+00C0 to U+00D6 and U+00D8 to
  U+00DE, each mapped to the letter 32 above it; every other rune is kept.\<close>

definition ToLower :: "string \<Rightarrow> string" where
  "ToLower s =
     map (\<lambda>c. let n = (of_char c :: nat)
              in if 65 \<le> n \<and> n \<le> 90 \<or> 192 \<le> n \<and> n \<le> 214 \<or> 216 \<le> n \<and> n \<le> 222
                 then char_of (n + 32) else c) s"

text \<open>The names that the seen-map of \<^verbatim>\<open>CompCommands\<close> marks.\<close>

definition seen_names :: "(string \<rightharpoonup> bool) \<Rightarrow> string set" where
  "seen_names m = {k. m k = Some True}"

section \<open>The spec's reading of the completion passes\<close>

text \<open>
  The candidates of a sequence of passes, deduplicated by name against a seen-set:
  \<open>first_by_name\<close> keeps a command when no command of the same name was kept before.
  \<open>four_pass_candidates\<close> follows the spec's words (exact match, case-insensitive match,
  prefix match, distance, each a pass of its own); \<open>merged_pass_candidates\<close> has the
  exact and the case-insensitive match in one pass, and no distance pass when the
  threshold is 0.
\<close>

fun first_by_name :: "string set \<Rightarrow> 'a Command list \<Rightarrow> 'a Command list" where
  "first_by_name seen [] = []"
| "first_by_name seen (c # cs) =
     (if cName c \<in> seen then first_by_name seen cs
      else c # first_by_name (insert (cName c) seen) cs)"

definition exact_match :: "string \<Rightarrow> 'a Command \<Rightarrow> bool" where
  "exact_match name c = (name = cName c \<or> list_ex (\<lambda>s. name = s) (cAliases c))"

definition folded_match :: "(string \<Rightarrow> string) \<Rightarrow> string \<Rightarrow> 'a Command \<Rightarrow> bool" where
  "folded_match toLower name c =
     (toLower (cName c) = toLower name \<or>
      list_ex (\<lambda>s. toLower name = toLower s) (cAliases c))"

definition prefix_match :: "(string \<Rightarrow> string) \<Rightarrow> string \<Rightarrow> 'a Command \<Rightarrow> bool" where
  "prefix_match toLower name c =
     (prefix (toLower name) (toLower (cName c)) \<or>
      list_ex (\<lambda>s. prefix (toLower name) (toLower s)) (cAliases c))"

definition dist_match :: "(string \<Rightarrow> string \<Rightarrow> int) \<Rightarrow> (string \<Rightarrow> string) \<Rightarrow> int \<Rightarrow> string \<Rightarrow>
    'a Command \<Rightarrow> bool" where
  "dist_match ldist toLower minDist name c =
     (ldist (toLower (cName c)) (toLower name) \<le> minDist \<or>
      list_ex (\<lambda>s. ldist (toLower s) (toLower name) \<le> minDist) (cAliases c))"

definition four_pass_candidates :: "(string \<Rightarrow> string \<Rightarrow> int) \<Rightarrow> (string \<Rightarrow> string) \<Rightarrow> int \<Rightarrow>
    'a Command \<Rightarrow> string \<Rightarrow> 'a Command list" where
  "four_pass_candidates ldist toLower defaultMinDist cmd name =
     first_by_name {}
       (filter (exact_match name) (cCommands cmd) @
        filter (folded_match toLower name) (cCommands cmd) @
        filter (prefix_match toLower name) (cCommands cmd) @
        filter (dist_match ldist toLower (minDist_of defaultMinDist cmd) name) (cCommands cmd))"

definition merged_pass_candidates :: "(string \<Rightarrow> string \<Rightarrow> int) \<Rightarrow> (string \<Rightarrow> string) \<Rightarrow> int \<Rightarrow>
    'a Command \<Rightarrow> string \<Rightarrow> 'a Command list" where
  "merged_pass_candidates ldist toLower defaultMinDist cmd name =
     first_by_name {}
       (filter (\<lambda>c. exact_match name c \<or> folded_match toLower name c) (cCommands cmd) @
        filter (prefix_match toLower name) (cCommands cmd) @
        (if minDist_of defaultMinDist cmd \<noteq> 0
         then filter (dist_match ldist toLower (minDist_of defaultMinDist cmd) name)
                (cCommands cmd)
         else []))"

section \<open>Example commands\<close>

text \<open>A small command tree with four flags, and simple collaborators, on which the
  theorems below are instantiated: the resolver looks a one-character name up as a short
  name and any other as a long name in the command's own flag set, \<open>demo_set\<close> stores
  the raw text under the flag's name, and \<open>demo_expand\<close> returns a default as it is.\<close>

definition demo_flagOf :: "string Command \<Rightarrow> string \<Rightarrow> string Flag option" where
  "demo_flagOf cmd arg = Command_Flag cmd arg (length arg = 1)"

definition demo_toBoolString :: "string option \<Rightarrow> string" where
  "demo_toBoolString d = (case d of None \<Rightarrow> ''true'' | Some x \<Rightarrow> x)"

definition demo_expand :: "string \<Rightarrow> string error + string" where
  "demo_expand d = Inr d"

definition demo_set :: "(string, string) setter" where
  "demo_set vars g val explicit = (vars(Name g \<mapsto> val), None)"

definition demo_flag :: "Type \<Rightarrow> string \<Rightarrow> string \<Rightarrow> string option \<Rightarrow> bool \<Rightarrow> string option \<Rightarrow>
    string Flag" where
  "demo_flag t name short d noArg noArgDef =
     \<lparr>Type = t, MapKey = StringT, Elem = StringT, Name = name, Usage = [], Short = short,
      Aliases = [], Spec = [], Def = d, NoArg = noArg, NoArgDef = noArgDef, Section = - 1,
      Hidden = False, Deprecated = False, Special = []\<rparr>"

definition demo_verbose :: "string Flag" where
  "demo_verbose = demo_flag BoolT ''verbose'' ''v'' None True (Some ''on'')"

definition demo_quiet :: "string Flag" where
  "demo_quiet = demo_flag BoolT ''quiet'' ''q'' None True (Some ''off'')"

definition demo_file :: "string Flag" where
  "demo_file = demo_flag StringT ''file'' ''f'' (Some ''a.txt'') False None"

definition demo_help :: "string Flag" where
  "demo_help = demo_flag HookT ''help'' ''h'' (Some ''show help'') True (Some [])"

definition demo_add :: "string Command" where
  "demo_add = Command ''add'' [] [] [] None [] None []"

definition demo_remote :: "string Command" where
  "demo_remote = Command ''remote'' [] [''r''] [] None [demo_add] None []"

definition demo_push :: "string Command" where
  "demo_push = Command ''push'' [] [] [] None [] None []"

definition demo_pull :: "string Command" where
  "demo_pull = Command ''pull'' [] [] [] None [] None []"

definition demo_fetch :: "string Command" where
  "demo_fetch = Command ''fetch'' [] [] [] None [] None []"

definition demo_root :: "string Command" where
  "demo_root = Command ''git'' [] [] [] (Some [demo_verbose, demo_quiet, demo_file, demo_help])
     [demo_push, demo_pull, demo_fetch, demo_remote] (Some \<lparr>MinDist = 2\<rparr>) []"

text \<open>A setter that runs the hook's action, which ends the processing with
  \<^verbatim>\<open>ErrExit\<close>, and otherwise is \<open>demo_set\<close>; and a command whose two children differ in
  the case of their names only.\<close>

definition demo_hook_set :: "(string, string) setter" where
  "demo_hook_set vars g val explicit =
     (if Type g = HookT then (vars, Some ErrExit) else demo_set vars g val explicit)"

definition demo_cased :: "string Command" where
  "demo_cased = Command ''app'' [] [] [] None
     [Command ''Push'' ''upper'' [] [] None [] None [],
      Command ''push'' ''lower'' [] [] None [] None []] None []"

section \<open>Unfolding the examples\<close>

lemmas demo_defs = demo_flagOf_def Command_Flag_def demo_root_def flag_matches_def
  demo_verbose_def demo_quiet_def demo_file_def demo_help_def demo_flag_def
  demo_toBoolString_def demo_set_def demo_expand_def

section \<open>Lookup\<close>

lemma Command_loop_find: "Command_loop cs name = find (name_matches name) cs"
  by (induction cs) (simp_all add: name_matches_def)

lemma Command_Command_find:
  "Command_Command cmd name = find (name_matches name) (cCommands cmd)"
  by (simp add: Command_Command_def Command_loop_find)

lemma Lookup_greedy:
  "\<exists>k\<le>length P. resolve_path C (take k P) = Some (Lookup C P) \<and>
     (k < length P \<longrightarrow> find (name_matches (P ! k)) (cCommands (Lookup C P)) = None)"
proof (induction P arbitrary: C)
  case Nil
  show ?case by simp
next
  case (Cons name names)
  show ?case
  proof (cases "find (name_matches name) (cCommands C)")
    case None
    then have "Lookup C (name # names) = C"
      by (simp add: Command_Command_find)
    with None show ?thesis
      by (intro exI [of _ 0]) simp
  next
    case (Some d)
    then have L: "Lookup C (name # names) = Lookup d names"
      by (simp add: Command_Command_find)
    from Cons.IH [of d] obtain k where k: "k \<le> length names"
      "resolve_path d (take k names) = Some (Lookup d names)"
      "k < length names \<longrightarrow> find (name_matches (names ! k)) (cCommands (Lookup d names)) = None"
      by blast
    show ?thesis
      using k Some L by (intro exI [of _ "Suc k"]) simp
  qed
qed

text \<open>
  C6. \<open>Lookup\<close> is a total function of the command and the names. Its result is the node
  reached by resolving a prefix of the names, each against the current cursor, by exact
  child name or exact alias with the first match in declaration order winning; the prefix
  ends at the first name that has no match at the node reached (or is the whole list).
  With no names the result is the command itself.
\<close>

theorem Lookup_deepest_resolved:
  "Lookup C [] = C \<and>
   (\<exists>k\<le>length P. resolve_path C (take k P) = Some (Lookup C P) \<and>
      (k < length P \<longrightarrow> find (name_matches (P ! k)) (cCommands (Lookup C P)) = None))"
  using Lookup_greedy [of P C] by simp

theorem Lookup_deepest_resolved_witness:
  "Lookup demo_root [] = demo_root \<and>
   Lookup demo_root [''r'', ''add'', ''zz''] = demo_add \<and>
   resolve_path demo_root (take 2 [''r'', ''add'', ''zz'']) = Some demo_add \<and>
   (2::nat) < length [''r'', ''add'', ''zz''] \<and>
   find (name_matches ([''r'', ''add'', ''zz''] ! 2)) (cCommands demo_add) = None"
  using Lookup_deepest_resolved [of demo_root "[''r'', ''add'', ''zz'']"]
  by (simp add: Command_Command_def name_matches_def demo_root_def demo_remote_def
      demo_add_def demo_push_def demo_pull_def demo_fetch_def)

section \<open>The terminator\<close>

lemma parse_loop_Return:
  "parse_step flagOf toBoolString expand vset st = Return r \<Longrightarrow>
   parse_loop flagOf toBoolString expand vset st = r"
  by (subst parse_loop.simps) simp

lemma parse_loop_Next:
  "parse_step flagOf toBoolString expand vset st = Next st' \<Longrightarrow>
   parse_loop flagOf toBoolString expand vset st =
   parse_loop flagOf toBoolString expand vset st'"
  by (subst parse_loop.simps) simp

text \<open>
  C2. In any state of the scan (cursor \<open>cmd\<close>, positionals \<open>v\<close> collected so far), when the
  next token is \<open>--\<close> the iteration returns, and so does the whole parse from that state:
  the result is the cursor command with the positional list \<open>v\<close> followed by all the tokens
  after the \<open>--\<close>, in their order, none of them looked at, and the vars are untouched.
\<close>

theorem parse_terminator:
  "parse_step flagOf toBoolString expand vset (cmd, ''--'' # rest, v, vars) =
     Return (vars, Inr (cmd, v @ rest)) \<and>
   parse_loop flagOf toBoolString expand vset (cmd, ''--'' # rest, v, vars) =
     (vars, Inr (cmd, v @ rest))"
proof -
  have "parse_step flagOf toBoolString expand vset (cmd, ''--'' # rest, v, vars) =
     Return (vars, Inr (cmd, v @ rest))"
    by (simp add: parse_step_def)
  then show ?thesis
    by (simp add: parse_loop_Return)
qed

text \<open>The spec's example: after \<open>--file x\<close>, the tokens behind \<open>--\<close> are the
  positional list, and \<open>-y\<close> is not read as a flag.\<close>

lemma parse_terminator_example:
  "parse demo_flagOf demo_toBoolString demo_expand demo_set demo_root
     [''--file'', ''x'', ''--'', ''-y'', ''z''] Map.empty =
   (Map.empty(''file'' \<mapsto> ''x''), Inr (demo_root, [''-y'', ''z'']))"
  by (simp add: parse_def parse_loop.simps parse_step_def parseLong_def TrimPrefix_def
      set_explicit_def demo_defs)

section \<open>Positionals end sub-command resolution\<close>

lemma parse_next_positional:
  assumes "parse_next flagOf toBoolString expand vset (cmd, args, v, vars) (cmd', args', v', vars')"
    and "v \<noteq> []"
  shows "cmd' = cmd \<and> prefix v v'"
  using assms
  by (auto simp: parse_next_def parse_step_def
      split: list.splits if_splits option.splits prod.splits sum.splits)

lemma parse_steps_positional:
  assumes "(parse_next flagOf toBoolString expand vset)\<^sup>*\<^sup>* st st'"
    and "fst (snd (snd st)) \<noteq> []"
  shows "fst st' = fst st \<and> prefix (fst (snd (snd st))) (fst (snd (snd st')))"
  using assms
proof (induction rule: rtranclp_induct)
  case base
  show ?case by simp
next
  case (step y z)
  obtain c1 a1 v1 s1 where y: "y = (c1, a1, v1, s1)" by (cases y)
  obtain c2 a2 v2 s2 where z: "z = (c2, a2, v2, s2)" by (cases z)
  from step have IH: "c1 = fst st" "prefix (fst (snd (snd st))) v1"
    by (simp_all add: y)
  with step.prems have "v1 \<noteq> []" by auto
  with step.hyps(2) have "c2 = c1 \<and> prefix v1 v2"
    unfolding y z by (rule parse_next_positional)
  with IH show ?case
    by (auto simp: z)
qed

lemma parse_step_bare_positional:
  assumes "v \<noteq> []" and "bare s"
  shows "parse_step flagOf toBoolString expand vset (cmd, s # rest, v, vars) =
     Next (cmd, rest, v @ [s], vars)"
  using assms by (simp add: parse_step_def bare_def)

text \<open>
  C1. From any state of the scan in which a token has already been appended to the
  positional list (\<open>v\<close> is not empty), every state reached by further iterations has the
  same cursor command and a positional list that extends \<open>v\<close>; and in every such state a
  next token that is bare (empty, one character, or not starting with a dash) is appended
  to the positional list, with the cursor and the vars unchanged: it is never resolved
  as a sub-command.
\<close>

theorem positional_stops_descent:
  assumes "(parse_next flagOf toBoolString expand vset)\<^sup>*\<^sup>*
             (cmd, args, v, vars) (cmd', args', v', vars')"
    and "v \<noteq> []"
  shows "cmd' = cmd \<and> prefix v v' \<and>
     (\<forall>s rest. args' = s # rest \<and> bare s \<longrightarrow>
        parse_step flagOf toBoolString expand vset (cmd', args', v', vars') =
          Next (cmd, rest, v' @ [s], vars'))"
proof -
  from parse_steps_positional [OF assms(1)] assms(2)
  have a: "cmd' = cmd" and b: "prefix v v'" by simp_all
  from b assms(2) have "v' \<noteq> []" by auto
  then show ?thesis
    using a b by (auto simp: parse_step_bare_positional)
qed

theorem positional_stops_descent_witness:
  "(parse_next demo_flagOf demo_toBoolString demo_expand demo_set)\<^sup>*\<^sup>*
     (demo_root, [''push'', ''-v'', ''pull''], [''x''], Map.empty)
     (demo_root, [''pull''], [''x'', ''push''], Map.empty(''verbose'' \<mapsto> ''true'')) \<and>
   [''x''] \<noteq> ([] :: string list) \<and> bare ''pull'' \<and>
   Command_Command demo_root ''pull'' = Some demo_pull \<and>
   parse_step demo_flagOf demo_toBoolString demo_expand demo_set
     (demo_root, [''pull''], [''x'', ''push''], Map.empty(''verbose'' \<mapsto> ''true'')) =
     Next (demo_root, [], [''x'', ''push'', ''pull''], Map.empty(''verbose'' \<mapsto> ''true''))"
proof -
  have s1: "parse_next demo_flagOf demo_toBoolString demo_expand demo_set
     (demo_root, [''push'', ''-v'', ''pull''], [''x''], Map.empty)
     (demo_root, [''-v'', ''pull''], [''x'', ''push''], Map.empty)"
    by (simp add: parse_next_def parse_step_def)
  have s2: "parse_next demo_flagOf demo_toBoolString demo_expand demo_set
     (demo_root, [''-v'', ''pull''], [''x'', ''push''], Map.empty)
     (demo_root, [''pull''], [''x'', ''push''], Map.empty(''verbose'' \<mapsto> ''true''))"
    by (simp add: parse_next_def parse_step_def parseShort_def parseShort_loop.simps
        demo_flagOf_def Command_Flag_def demo_root_def flag_matches_def demo_verbose_def
        demo_flag_def demo_toBoolString_def demo_set_def)
  have r: "(parse_next demo_flagOf demo_toBoolString demo_expand demo_set)\<^sup>*\<^sup>*
     (demo_root, [''push'', ''-v'', ''pull''], [''x''], Map.empty)
     (demo_root, [''pull''], [''x'', ''push''], Map.empty(''verbose'' \<mapsto> ''true''))"
    using s1 s2 by (meson rtranclp.rtrancl_into_rtrancl rtranclp.rtrancl_refl)
  have c: "Command_Command demo_root ''pull'' = Some demo_pull"
    by (simp add: Command_Command_def demo_root_def demo_push_def demo_pull_def)
  from positional_stops_descent [OF r] r c show ?thesis
    by (simp add: bare_def)
qed

section \<open>Long and short flags\<close>

lemma Cut_no_sep: "sep \<notin> set s \<Longrightarrow> Cut s sep = (s, [], False)"
  by (induction s) auto

lemma TrimPrefix_append: "TrimPrefix (p @ s) p = s"
  by (simp add: TrimPrefix_def)

lemma Index_ge: "- 1 \<le> Index v x"
  by (induction v) (auto simp: Let_def)

lemma Index_eq_0: "Index v x = 0 \<longleftrightarrow> (\<exists>w. v = x # w)"
proof (cases v)
  case Nil
  then show ?thesis by simp
next
  case (Cons a u)
  have "- 1 \<le> Index u x" by (rule Index_ge)
  with Cons show ?thesis by (auto simp: Let_def)
qed

lemma Index_eq_1:
  "Index v x = 1 \<longleftrightarrow> (\<exists>a w. v = a # x # w \<and> a \<noteq> x)"
proof (cases v)
  case Nil
  then show ?thesis by simp
next
  case (Cons a u)
  have "Index (a # u) x = 1 \<longleftrightarrow> a \<noteq> x \<and> Index u x = 0"
    by (auto simp: Let_def)
  with Cons show ?thesis
    by (auto simp: Index_eq_0)
qed


lemma parseLong_noarg_flag:
  assumes "flagOf cmd name = Some g" and "NoArg g" and "CHR ''='' \<notin> set name"
  shows "parseLong flagOf toBoolString vset cmd (''--'' @ name) args vars =
     set_explicit vset g name (toBoolString (Def g)) args vars"
  using assms
  by (simp add: parseLong_def TrimPrefix_append [of "''--''" name, simplified] Cut_no_sep)


lemma parseShort_loop_value:
  assumes "flagOf cmd [f] = Some g" and "\<not> NoArg g" and "val \<noteq> []"
  shows "parseShort_loop flagOf toBoolString vset cmd (f # val) args vars =
     set_explicit vset g [f]
       (if f \<noteq> CHR ''='' \<and> hd val = CHR ''='' then tl val else val) args vars"
proof -
  obtain b w where val: "val = b # w" using assms(3) by (cases val) auto
  have "Index (f # val) CHR ''='' = 1 \<longleftrightarrow> f \<noteq> CHR ''='' \<and> hd val = CHR ''=''"
    by (auto simp: Index_eq_1 val simp del: Index.simps)
  then show ?thesis
    using assms by (subst parseShort_loop.simps) (auto simp: Let_def val simp del: Index.simps)
qed






text \<open>
  C3, as amended. For a long-flag token without \<^verbatim>\<open>=\<close> that resolves to a no-argument
  flag \<open>g\<close>, \<^verbatim>\<open>parseLong\<close> makes one explicit \<^verbatim>\<open>Set\<close> (the mark is \<open>True\<close>) and returns the
  arguments as they were, so no token is consumed; the text that is set is
  \<open>toBoolString (Def g)\<close>, computed from the flag's default, and \<open>NoArgDef g\<close> is not read.
\<close>

theorem long_noarg_flag_value:
  assumes "flagOf cmd name = Some g" and "NoArg g" and "CHR ''='' \<notin> set name"
  shows "parseLong flagOf toBoolString vset cmd (''--'' @ name) args vars =
     (case vset vars g (toBoolString (Def g)) True of
        (vars', Some err) \<Rightarrow> (vars', Inl (newFlagError name err))
      | (vars', None) \<Rightarrow> (vars', Inr args))"
proof -
  have "parseLong flagOf toBoolString vset cmd (''--'' @ name) args vars =
     set_explicit vset g name (toBoolString (Def g)) args vars"
    by (fact parseLong_noarg_flag [where flagOf = flagOf and cmd = cmd, OF assms])
  then show ?thesis
    by (simp only: set_explicit_def)
qed

theorem long_noarg_flag_value_witness:
  "demo_flagOf demo_root ''verbose'' = Some demo_verbose \<and> NoArg demo_verbose \<and>
   demo_flagOf demo_root ''quiet'' = Some demo_quiet \<and> NoArg demo_quiet \<and>
   NoArgDef demo_verbose = Some ''on'' \<and> NoArgDef demo_quiet = Some ''off'' \<and>
   (\<forall>tb. parseLong demo_flagOf tb demo_set demo_root ''--verbose'' [''x''] Map.empty =
      (Map.empty(''verbose'' \<mapsto> tb None), Inr [''x''])) \<and>
   (\<forall>tb. parseLong demo_flagOf tb demo_set demo_root ''--quiet'' [''x''] Map.empty =
      (Map.empty(''quiet'' \<mapsto> tb None), Inr [''x'']))"
proof -
  have f1: "demo_flagOf demo_root ''verbose'' = Some demo_verbose"
    and f2: "NoArg demo_verbose"
    and f3: "demo_flagOf demo_root ''quiet'' = Some demo_quiet"
    and f4: "NoArg demo_quiet"
    by (simp_all add: demo_defs)
  have d: "Def demo_verbose = None" "Def demo_quiet = None"
      "Name demo_verbose = ''verbose''" "Name demo_quiet = ''quiet''"
      "NoArgDef demo_verbose = Some ''on''" "NoArgDef demo_quiet = Some ''off''"
    by (simp_all add: demo_defs)
  have "parseLong demo_flagOf tb demo_set demo_root ''--verbose'' [''x''] Map.empty =
      (Map.empty(''verbose'' \<mapsto> tb None), Inr [''x''])" for tb
    using long_noarg_flag_value [where flagOf = demo_flagOf and cmd = demo_root
        and name = "''verbose''" and toBoolString = tb and vset = demo_set
        and args = "[''x'']" and vars = Map.empty, OF f1 f2]
    by (simp add: d demo_set_def)
  moreover have "parseLong demo_flagOf tb demo_set demo_root ''--quiet'' [''x''] Map.empty =
      (Map.empty(''quiet'' \<mapsto> tb None), Inr [''x''])" for tb
    using long_noarg_flag_value [where flagOf = demo_flagOf and cmd = demo_root
        and name = "''quiet''" and toBoolString = tb and vset = demo_set
        and args = "[''x'']" and vars = Map.empty, OF f3 f4]
    by (simp add: d demo_set_def)
  ultimately show ?thesis
    using f1 f2 f3 f4 d by simp
qed

text \<open>
  C3 as stated fails: the flags \<open>verbose\<close> and \<open>quiet\<close> have the same default and the
  no-argument values \<open>on\<close> and \<open>off\<close>; whatever \<open>toBoolString\<close> is, \<open>--verbose\<close> and
  \<open>--quiet\<close> set the same text, so not each its no-argument value.
\<close>

theorem long_noarg_flag_NoArgDef_counterexample:
  "NoArg demo_verbose \<and> NoArg demo_quiet \<and>
   \<not> (\<exists>tb.
      fst (parseLong demo_flagOf tb demo_set demo_root ''--verbose'' [] Map.empty) ''verbose'' =
        NoArgDef demo_verbose \<and>
      fst (parseLong demo_flagOf tb demo_set demo_root ''--quiet'' [] Map.empty) ''quiet'' =
        NoArgDef demo_quiet)"
proof -
  have f1: "demo_flagOf demo_root ''verbose'' = Some demo_verbose"
    and f2: "NoArg demo_verbose"
    and f3: "demo_flagOf demo_root ''quiet'' = Some demo_quiet"
    and f4: "NoArg demo_quiet"
    by (simp_all add: demo_defs)
  have d: "Def demo_verbose = None" "Def demo_quiet = None"
      "Name demo_verbose = ''verbose''" "Name demo_quiet = ''quiet''"
      "NoArgDef demo_verbose = Some ''on''" "NoArgDef demo_quiet = Some ''off''"
    by (simp_all add: demo_defs)
  have v: "fst (parseLong demo_flagOf tb demo_set demo_root ''--verbose'' [] Map.empty)
      ''verbose'' = Some (tb None)" for tb
    using parseLong_noarg_flag [where flagOf = demo_flagOf and cmd = demo_root
        and name = "''verbose''" and toBoolString = tb and vset = demo_set
        and args = "[]" and vars = Map.empty, OF f1 f2]
    by (simp add: d demo_set_def set_explicit_def)
  have q: "fst (parseLong demo_flagOf tb demo_set demo_root ''--quiet'' [] Map.empty)
      ''quiet'' = Some (tb None)" for tb
    using parseLong_noarg_flag [where flagOf = demo_flagOf and cmd = demo_root
        and name = "''quiet''" and toBoolString = tb and vset = demo_set
        and args = "[]" and vars = Map.empty, OF f3 f4]
    by (simp add: d demo_set_def set_explicit_def)
  show ?thesis
    using f2 f4 by (auto simp: v q d)
qed

text \<open>
  C5. For a token \<open>-f\<close> followed by a non-empty text \<open>val\<close>, where \<open>f\<close> resolves to a flag
  that takes an argument: \<^verbatim>\<open>parseShort\<close> makes one explicit \<^verbatim>\<open>Set\<close> of that flag, with
  \<open>val\<close> (without its leading \<^verbatim>\<open>=\<close> when it has one and \<open>f\<close> is not itself \<^verbatim>\<open>=\<close>), and
  returns the arguments as they were: no following token is consumed and no character of
  \<open>val\<close> is looked up as a flag.
\<close>

theorem short_flag_embedded_value:
  assumes "flagOf cmd [f] = Some g" and "\<not> NoArg g" and "val \<noteq> []"
  shows "parseShort flagOf toBoolString vset cmd (''-'' @ f # val) args vars =
     (case vset vars g (if f \<noteq> CHR ''='' \<and> hd val = CHR ''='' then tl val else val) True of
        (vars', Some err) \<Rightarrow> (vars', Inl (newFlagError [f] err))
      | (vars', None) \<Rightarrow> (vars', Inr args))"
proof -
  have "parseShort flagOf toBoolString vset cmd (''-'' @ f # val) args vars =
      parseShort_loop flagOf toBoolString vset cmd (f # val) args vars"
    by (simp add: parseShort_def)
  also have "\<dots> = set_explicit vset g [f]
       (if f \<noteq> CHR ''='' \<and> hd val = CHR ''='' then tl val else val) args vars"
    by (fact parseShort_loop_value [where flagOf = flagOf and cmd = cmd, OF assms])
  finally show ?thesis
    by (simp only: set_explicit_def)
qed

theorem short_flag_embedded_value_witness:
  "demo_flagOf demo_root ''f'' = Some demo_file \<and> \<not> NoArg demo_file \<and>
   ''value'' \<noteq> [] \<and> demo_flagOf demo_root ''v'' = Some demo_verbose \<and>
   parseShort demo_flagOf demo_toBoolString demo_set demo_root ''-fvalue'' [''next'']
      Map.empty = (Map.empty(''file'' \<mapsto> ''value''), Inr [''next''])"
proof -
  have f1: "demo_flagOf demo_root ''f'' = Some demo_file"
    and f2: "\<not> NoArg demo_file"
    and f3: "demo_flagOf demo_root ''v'' = Some demo_verbose"
    and f4: "Name demo_file = ''file''"
    by (simp_all add: demo_defs)
  from short_flag_embedded_value [where flagOf = demo_flagOf and cmd = demo_root
      and f = "CHR ''f''" and val = "''value''" and toBoolString = demo_toBoolString
      and vset = demo_set and args = "[''next'']" and vars = Map.empty, OF f1 f2]
  have "parseShort demo_flagOf demo_toBoolString demo_set demo_root ''-fvalue'' [''next'']
      Map.empty = (Map.empty(''file'' \<mapsto> ''value''), Inr [''next''])"
    by (simp add: demo_set_def f4)
  with f1 f2 f3 show ?thesis by simp
qed

section \<open>Default population and hooks\<close>

lemma Populate_loop_hook_independent:
  assumes "\<And>vars g val ex. Type g \<noteq> HookT \<Longrightarrow> vset vars g val ex = vset' vars g val ex"
  shows "Populate_loop expand vset all overwrite gs vars =
     Populate_loop expand vset' all overwrite gs vars"
proof (induction gs arbitrary: vars)
  case Nil
  show ?case by simp
next
  case (Cons g gs)
  show ?case
  proof (cases "Type g = HookT \<or> (Def g = None \<and> \<not> all)")
    case True
    show ?thesis
      by (simp only: Populate_loop.simps Let_def True if_True Cons.IH)
  next
    case False
    then have "Type g \<noteq> HookT" by simp
    then have eq: "vset vars1 g val False = vset' vars1 g val False" for vars1 val
      by (rule assms)
    show ?thesis
      by (simp only: Populate_loop.simps Let_def eq Cons.IH)
  qed
qed

text \<open>
  C10. For every command, vars and values of \<open>all\<close> and \<open>overwrite\<close>, \<^verbatim>\<open>Populate\<close> makes
  no \<^verbatim>\<open>Set\<close> for a flag of the hook type: its result (the vars and the error) is the same
  for any two setters that agree on the flags of every other type, whatever they do for a
  hook flag. Every result of a \<^verbatim>\<open>Set\<close> call is either returned or passed on by the loop, so
  a call for a hook flag would show in the result.
\<close>

theorem Populate_never_sets_hook:
  assumes "\<And>vars g val ex. Type g \<noteq> HookT \<Longrightarrow> vset vars g val ex = vset' vars g val ex"
  shows "Populate expand vset cmd all overwrite vars =
     Populate expand vset' cmd all overwrite vars"
  using Populate_loop_hook_independent [of vset vset', OF assms]
  by (simp add: Populate_def split: option.splits)

theorem Populate_never_sets_hook_witness:
  "Type demo_help = HookT \<and> cFlags demo_root = Some [demo_verbose, demo_quiet, demo_file, demo_help] \<and>
   demo_hook_set Map.empty demo_help [] False \<noteq> demo_set Map.empty demo_help [] False \<and>
   Populate demo_expand demo_hook_set demo_root True True Map.empty =
     Populate demo_expand demo_set demo_root True True Map.empty \<and>
   Populate demo_expand demo_hook_set demo_root True True Map.empty =
     (Map.empty(''verbose'' \<mapsto> [], ''quiet'' \<mapsto> [], ''file'' \<mapsto> ''a.txt''), None)"
proof -
  have h: "\<And>vars g val ex. Type g \<noteq> HookT \<Longrightarrow>
      demo_hook_set vars g val ex = demo_set vars g val ex"
    by (simp add: demo_hook_set_def)
  have e: "Populate demo_expand demo_set demo_root True True Map.empty =
     (Map.empty(''verbose'' \<mapsto> [], ''quiet'' \<mapsto> [], ''file'' \<mapsto> ''a.txt''), None)"
    by (simp add: Populate_def demo_root_def demo_verbose_def demo_quiet_def demo_file_def
        demo_help_def demo_flag_def demo_set_def demo_expand_def)
  have d: "demo_hook_set Map.empty demo_help [] False \<noteq> demo_set Map.empty demo_help [] False"
    by (simp add: demo_hook_set_def demo_set_def demo_help_def demo_flag_def)
  have t: "Type demo_help = HookT"
    by (simp add: demo_help_def demo_flag_def)
  have c: "cFlags demo_root = Some [demo_verbose, demo_quiet, demo_file, demo_help]"
    by (simp add: demo_root_def)
  from Populate_never_sets_hook [of demo_hook_set demo_set demo_expand demo_root True True
      Map.empty, OF h] e d t c
  show ?thesis by simp
qed

section \<open>Idempotence of default population\<close>

lemma explicit_keys_add:
  assumes "\<And>k x. m k = Some x \<Longrightarrow> \<not> wasSet x \<and> k \<notin> explicit_keys v"
  shows "explicit_keys (v ++ m) = explicit_keys v"
  using assms
  by (fastforce simp: explicit_keys_def map_add_def split: option.splits)

lemma map_add_twice: "(v ++ m) ++ m = v ++ (m :: 'k \<rightharpoonup> 'x)"
  by (rule ext) (simp add: map_add_def split: option.splits)

lemma Populate_loop_step:
  "Populate_loop expand vset all False (g # gs) vars =
     (if Type g = HookT \<or> (Def g = None \<and> \<not> all)
      then Populate_loop expand vset all False gs vars
      else (case (case Def g of None \<Rightarrow> Inr [] | Some d \<Rightarrow> expand d) of
              Inl err \<Rightarrow> (vars, Some err)
            | Inr val \<Rightarrow>
                (case vset vars g val False of
                   (vars2, Some err) \<Rightarrow> (vars2, Some (PopulateError (Name g) val err))
                 | (vars2, None) \<Rightarrow> Populate_loop expand vset all False gs vars2)))"
  by (simp add: Let_def)

lemma Vars_Set_default:
  assumes "Type g \<noteq> HookT"
  shows "Vars_Set parseText action vars g val False =
     (if (case vars (Name g) of Some x \<Rightarrow> wasSet x | None \<Rightarrow> False) then (vars, None)
      else (case parseText g val of
              None \<Rightarrow> (vars, Some (TypeMismatch (Name g) val))
            | Some d \<Rightarrow> (vars ++ [Name g \<mapsto> \<lparr>held = [d], wasSet = False\<rparr>], None)))"
  using assms by (simp add: Vars_Set_def split: option.splits)

lemma Populate_loop_defaults_shape:
  fixes v :: "'d Value Vars" and parseText :: "'a Flag \<Rightarrow> string \<Rightarrow> 'd option"
  shows "\<exists>m e. (\<forall>v'. explicit_keys v' = explicit_keys v \<longrightarrow>
            Populate_loop expand (Vars_Set parseText action) all False gs v' = (v' ++ m, e)) \<and>
          (\<forall>k x. m k = Some x \<longrightarrow> \<not> wasSet x \<and> k \<notin> explicit_keys v)"
proof (induction gs arbitrary: v)
  case Nil
  show ?case
    by (intro exI [of _ Map.empty] exI [of _ None]) simp
next
  case (Cons g gs)
  let ?S = "Vars_Set parseText action"
  from Cons.IH [of v] obtain m e where
    IH: "\<And>v'. explicit_keys v' = explicit_keys v \<Longrightarrow>
           Populate_loop expand ?S all False gs v' = (v' ++ m, e)"
      "\<And>k x. m k = Some x \<Longrightarrow> \<not> wasSet x \<and> k \<notin> explicit_keys v"
    by blast
  have suppressed: "(case v' (Name g) of Some x \<Rightarrow> wasSet x | None \<Rightarrow> False) \<longleftrightarrow>
      Name g \<in> explicit_keys v" if "explicit_keys v' = explicit_keys v" for v'
    using that [symmetric] by (auto simp: explicit_keys_def split: option.splits)
  show ?case
  proof (cases "Type g = HookT \<or> (Def g = None \<and> \<not> all)")
    case True
    have "Populate_loop expand ?S all False (g # gs) v' =
        Populate_loop expand ?S all False gs v'" for v'
      by (simp only: Populate_loop_step True if_True)
    with IH show ?thesis
      by (intro exI [of _ m] exI [of _ e]) auto
  next
    case False
    then have nh: "Type g \<noteq> HookT" by simp
    show ?thesis
    proof (cases "case Def g of None \<Rightarrow> Inr [] | Some d \<Rightarrow> expand d")
      case (Inl err)
      have "Populate_loop expand ?S all False (g # gs) v' = (v', Some err)" for v'
        by (simp only: Populate_loop_step False if_False Inl sum.case)
      then show ?thesis
        by (intro exI [of _ Map.empty] exI [of _ "Some err"]) simp
    next
      case (Inr val)
      show ?thesis
      proof (cases "Name g \<in> explicit_keys v")
        case True
        have "Populate_loop expand ?S all False (g # gs) v' =
            Populate_loop expand ?S all False gs v'"
          if "explicit_keys v' = explicit_keys v" for v'
          using True suppressed [OF that]
          by (simp only: Populate_loop_step False if_False Inr sum.case Vars_Set_default [OF nh])
            simp
        with IH show ?thesis
          by (intro exI [of _ m] exI [of _ e]) auto
      next
        case notex: False
        show ?thesis
        proof (cases "parseText g val")
          case None
          have "Populate_loop expand ?S all False (g # gs) v' =
              (v', Some (PopulateError (Name g) val (TypeMismatch (Name g) val)))"
            if "explicit_keys v' = explicit_keys v" for v'
            using notex None suppressed [OF that]
            by (simp only: Populate_loop_step False if_False Inr sum.case
                Vars_Set_default [OF nh]) simp
          then show ?thesis
            by (intro exI [of _ Map.empty]
                exI [of _ "Some (PopulateError (Name g) val (TypeMismatch (Name g) val))"]) simp
        next
          case (Some d)
          let ?m1 = "[Name g \<mapsto> \<lparr>held = [d], wasSet = False\<rparr>] :: 'd Value Vars"
          have m1: "\<And>k x. ?m1 k = Some x \<Longrightarrow> \<not> wasSet x \<and> k \<notin> explicit_keys v"
            using notex by (auto split: if_splits)
          have step: "Populate_loop expand ?S all False (g # gs) v' =
              Populate_loop expand ?S all False gs (v' ++ ?m1)"
            if "explicit_keys v' = explicit_keys v" for v'
            using notex Some suppressed [OF that]
            by (simp only: Populate_loop_step False if_False Inr sum.case
                Vars_Set_default [OF nh]) simp
          from Cons.IH [of "v ++ ?m1"] obtain m2 e2 where
            IH2: "\<And>v'. explicit_keys v' = explicit_keys (v ++ ?m1) \<Longrightarrow>
                   Populate_loop expand ?S all False gs v' = (v' ++ m2, e2)"
              "\<And>k x. m2 k = Some x \<Longrightarrow> \<not> wasSet x \<and> k \<notin> explicit_keys (v ++ ?m1)"
            by blast
          have ek: "explicit_keys (v' ++ ?m1) = explicit_keys v"
            if "explicit_keys v' = explicit_keys v" for v'
            using explicit_keys_add [of ?m1 v'] m1 that by simp
          have r: "Populate_loop expand ?S all False (g # gs) v' = (v' ++ (?m1 ++ m2), e2)"
            if "explicit_keys v' = explicit_keys v" for v'
            using step [OF that] IH2(1) [of "v' ++ ?m1"] ek [OF that] ek [of v]
            by simp
          have p: "\<not> wasSet x \<and> k \<notin> explicit_keys v" if "(?m1 ++ m2) k = Some x" for k x
          proof (cases "m2 k")
            case None
            with that have "?m1 k = Some x" by (simp add: map_add_def)
            then show ?thesis by (rule m1)
          next
            case (Some y)
            with that have "y = x" by (simp add: map_add_def)
            with Some IH2(2) [of k x] ek [of v] show ?thesis by simp
          qed
          from r p show ?thesis
            by (intro exI [of _ "?m1 ++ m2"] exI [of _ e2]) blast
        qed
      qed
    qed
  qed
qed

lemma Populate_loop_defaults_idem:
  "Populate_loop expand (Vars_Set parseText action) all False gs
     (fst (Populate_loop expand (Vars_Set parseText action) all False gs v)) =
   Populate_loop expand (Vars_Set parseText action) all False gs v"
proof -
  from Populate_loop_defaults_shape [of v expand parseText action all gs]
  obtain m e where
    a: "\<And>v'. explicit_keys v' = explicit_keys v \<Longrightarrow>
           Populate_loop expand (Vars_Set parseText action) all False gs v' = (v' ++ m, e)"
    and b: "\<And>k x. m k = Some x \<Longrightarrow> \<not> wasSet x \<and> k \<notin> explicit_keys v"
    by blast
  have "explicit_keys (v ++ m) = explicit_keys v"
    using b by (rule explicit_keys_add)
  then have "Populate_loop expand (Vars_Set parseText action) all False gs (v ++ m) =
      ((v ++ m) ++ m, e)"
    by (rule a)
  with a [of v] show ?thesis
    by (simp add: map_add_twice)
qed

text \<open>
  C9. With \<^verbatim>\<open>Vars.Set\<close> as the spec describes it, \<^verbatim>\<open>Populate\<close> with \<open>all = True\<close> and
  \<open>overwrite = False\<close> is idempotent: run on the vars that a first run leaves, it returns
  the same vars and the same error as the first run did. This holds for every vars, also
  for one that holds explicit values (their default population is suppressed both times).
\<close>

theorem Populate_defaults_idempotent:
  "Populate expand (Vars_Set parseText action) cmd True False
     (fst (Populate expand (Vars_Set parseText action) cmd True False vars)) =
   Populate expand (Vars_Set parseText action) cmd True False vars"
  by (simp add: Populate_def Populate_loop_defaults_idem split: option.splits)

section \<open>Suggestions\<close>

lemma Suggest_names_ex:
  "Suggest_names ldist toLower minDist arg names =
     list_ex (\<lambda>name. ldist arg (toLower name) \<le> minDist) names"
  by (induction names) simp_all

lemma Suggest_loop_find:
  "Suggest_loop ldist toLower minDist cmd arg0 arg cs =
     (case find (\<lambda>c. list_ex (\<lambda>name. ldist arg (toLower name) \<le> minDist)
                     (cName c # cAliases c @ cSuggested c)) cs of
        Some c \<Rightarrow> SuggestionError cmd arg0 c
      | None \<Rightarrow> SuggestionErrorMessage ErrUnknownCommand arg0 (cName cmd))"
  by (induction cs) (simp_all add: Suggest_names_ex prepend_def)

text \<open>
  C7. For a non-empty argument list, \<^verbatim>\<open>Suggest\<close> returns an error: the suggestion error
  for the command, the first argument and the first child, in declaration order, one of
  whose candidates (its name, its aliases, its suggested names), case-folded, is within
  the threshold of the case-folded first argument; when no child has such a candidate,
  the unknown-command error with the first argument and the command's name. The
  threshold is the help's \<^verbatim>\<open>MinDist\<close> when that is positive, the default otherwise.
\<close>

theorem Suggest_first_within_distance:
  assumes "args \<noteq> []"
  shows "Suggest ldist toLower defaultMinDist cmd args =
       Some (case find (\<lambda>c. list_ex (\<lambda>name. ldist (toLower (hd args)) (toLower name)
                                        \<le> minDist_of defaultMinDist cmd)
                               (cName c # cAliases c @ cSuggested c)) (cCommands cmd) of
               Some c \<Rightarrow> SuggestionError cmd (hd args) c
             | None \<Rightarrow> SuggestionErrorMessage ErrUnknownCommand (hd args) (cName cmd)) \<and>
     minDist_of defaultMinDist cmd =
       (case cHelp cmd of
          None \<Rightarrow> defaultMinDist
        | Some help \<Rightarrow> if 0 < MinDist help then MinDist help else defaultMinDist)"
  using assms
  by (auto simp: Suggest_def Suggest_loop_find minDist_of_def Let_def split: option.splits)

lemma ToLower_demo:
  "ToLower ''pish'' = ''pish''" "ToLower ''push'' = ''push''"
  "ToLower ''pull'' = ''pull''" "ToLower ''fetch'' = ''fetch''" "ToLower ''remote'' = ''remote''"
  "ToLower ''r'' = ''r''" "ToLower ''zzzzz'' = ''zzzzz''" "ToLower ''Push'' = ''push''"
  by code_simp+

theorem Suggest_first_within_distance_witness:
  "[''pish''] \<noteq> ([] :: string list) \<and> [''zzzzz''] \<noteq> ([] :: string list) \<and>
   Suggest Ldist ToLower 2 demo_root [''pish''] =
     Some (SuggestionError demo_root ''pish'' demo_push) \<and>
   Suggest Ldist ToLower 2 demo_root [''zzzzz''] =
     Some (SuggestionErrorMessage ErrUnknownCommand ''zzzzz'' ''git'')"
proof -
  have m: "minDist_of 2 demo_root = 2"
    by (simp add: minDist_of_def demo_root_def)
  have c: "cCommands demo_root = [demo_push, demo_pull, demo_fetch, demo_remote]"
    "cName demo_root = ''git''"
    by (simp_all add: demo_root_def)
  have "Suggest Ldist ToLower 2 demo_root [''pish''] =
     Some (SuggestionError demo_root ''pish'' demo_push)"
    using Suggest_first_within_distance [of "[''pish'']" Ldist ToLower 2 demo_root]
    by (simp add: m c ToLower_demo demo_push_def)
  moreover have "Suggest Ldist ToLower 2 demo_root [''zzzzz''] =
     Some (SuggestionErrorMessage ErrUnknownCommand ''zzzzz'' ''git'')"
    using Suggest_first_within_distance [of "[''zzzzz'']" Ldist ToLower 2 demo_root]
    by (simp add: m c ToLower_demo demo_push_def demo_pull_def demo_fetch_def
        demo_remote_def)
  ultimately show ?thesis by simp
qed

section \<open>Completion passes\<close>

lemma addComp_chain_eq:
  "addComp_chain comps c m bs =
     (if m (cName c) = Some True \<or> \<not> list_ex (\<lambda>b. b) bs then (comps, m)
      else (comps @ [NewCompletion (cName c) (cUsage c)], m(cName c \<mapsto> True)))"
proof (induction bs)
  case Nil
  show ?case by simp
next
  case (Cons b bs)
  show ?case
  proof (cases "m (cName c) = Some True")
    case True
    then show ?thesis by (simp add: addComp_def)
  next
    case False
    show ?thesis
    proof (cases b)
      case True
      with False show ?thesis by (simp add: addComp_def)
    next
      case nb: False
      with False Cons.IH show ?thesis by (simp add: addComp_def)
    qed
  qed
qed

lemma seen_names_iff: "k \<in> seen_names m \<longleftrightarrow> m k = Some True"
  by (simp add: seen_names_def)

lemma seen_names_upd: "seen_names (m(k \<mapsto> True)) = insert k (seen_names m)"
  by (auto simp: seen_names_def)

lemma comp_pass_eq:
  "comp_pass tests cs (comps, m) = (comps', m') \<Longrightarrow>
   comps' = comps @ map (\<lambda>c. NewCompletion (cName c) (cUsage c))
              (first_by_name (seen_names m) (filter (\<lambda>c. list_ex (\<lambda>b. b) (tests c)) cs)) \<and>
   seen_names m' =
     seen_names m \<union> cName ` set (filter (\<lambda>c. list_ex (\<lambda>b. b) (tests c)) cs)"
proof (induction cs arbitrary: comps m)
  case Nil
  then show ?case by simp
next
  case (Cons c cs)
  show ?case
  proof (cases "cName c \<in> seen_names m \<or> \<not> list_ex (\<lambda>b. b) (tests c)")
    case True
    with Cons.prems have "comp_pass tests cs (comps, m) = (comps', m')"
      by (simp add: addComp_chain_eq seen_names_iff)
    from Cons.IH [OF this] True show ?thesis
      by auto
  next
    case False
    with Cons.prems have "comp_pass tests cs
        (comps @ [NewCompletion (cName c) (cUsage c)], m(cName c \<mapsto> True)) = (comps', m')"
      by (simp add: addComp_chain_eq seen_names_iff)
    from Cons.IH [OF this]
    have "comps' = (comps @ [NewCompletion (cName c) (cUsage c)]) @
          map (\<lambda>c. NewCompletion (cName c) (cUsage c))
            (first_by_name (insert (cName c) (seen_names m))
               (filter (\<lambda>c. list_ex (\<lambda>b. b) (tests c)) cs))"
      and "seen_names m' = insert (cName c) (seen_names m) \<union>
          cName ` set (filter (\<lambda>c. list_ex (\<lambda>b. b) (tests c)) cs)"
      unfolding seen_names_upd by blast+
    with False show ?thesis
      by auto
  qed
qed

lemma first_by_name_append:
  "first_by_name S (xs @ ys) =
     first_by_name S xs @ first_by_name (S \<union> cName ` set xs) ys"
proof (induction xs arbitrary: S)
  case Nil
  show ?case by simp
next
  case (Cons x xs)
  show ?case
  proof (cases "cName x \<in> S")
    case True
    then have "S \<union> cName ` set (x # xs) = S \<union> cName ` set xs" by auto
    with True Cons.IH [of S] show ?thesis by simp
  next
    case False
    have "insert (cName x) S \<union> cName ` set xs = S \<union> cName ` set (x # xs)" by auto
    with False Cons.IH [of "insert (cName x) S"] show ?thesis by simp
  qed
qed

lemma first_by_name_names:
  "distinct (map cName (first_by_name S xs)) \<and> cName ` set (first_by_name S xs) \<inter> S = {}"
proof (induction xs arbitrary: S)
  case Nil
  show ?case by simp
next
  case (Cons x xs)
  from Cons.IH [of S] Cons.IH [of "insert (cName x) S"] show ?case
    by auto
qed

lemma exact_tests_ex:
  "list_ex (\<lambda>b. b) (exact_tests toLower name c) \<longleftrightarrow>
     exact_match name c \<or> folded_match toLower name c"
  by (auto simp: exact_tests_def exact_match_def folded_match_def)

lemma prefix_tests_ex:
  "list_ex (\<lambda>b. b) (prefix_tests toLower name c) \<longleftrightarrow> prefix_match toLower name c"
  by (auto simp: prefix_tests_def prefix_match_def)

lemma dist_tests_ex:
  "list_ex (\<lambda>b. b) (dist_tests ldist toLower minDist name c) \<longleftrightarrow>
     dist_match ldist toLower minDist name c"
  by (auto simp: dist_tests_def dist_match_def)

lemma CompCommands_merged:
  "fst (CompCommands ldist toLower defaultMinDist cmd name) =
     map (\<lambda>c. NewCompletion (cName c) (cUsage c))
       (merged_pass_candidates ldist toLower defaultMinDist cmd name)"
proof -
  let ?cs = "cCommands cmd"
  let ?d = "minDist_of defaultMinDist cmd"
  let ?mk = "\<lambda>c. NewCompletion (cName c) (cUsage c)"
  let ?A = "filter (\<lambda>c. exact_match name c \<or> folded_match toLower name c) ?cs"
  let ?B = "filter (prefix_match toLower name) ?cs"
  let ?C = "filter (dist_match ldist toLower ?d name) ?cs"
  obtain c1 m1 where p1: "comp_pass (exact_tests toLower name) ?cs ([], Map.empty) = (c1, m1)"
    by (cases "comp_pass (exact_tests toLower name) ?cs ([], Map.empty)")
  obtain c2 m2 where p2: "comp_pass (prefix_tests toLower name) ?cs (c1, m1) = (c2, m2)"
    by (cases "comp_pass (prefix_tests toLower name) ?cs (c1, m1)")
  obtain c3 m3 where p3: "comp_pass (dist_tests ldist toLower ?d name) ?cs (c2, m2) = (c3, m3)"
    by (cases "comp_pass (dist_tests ldist toLower ?d name) ?cs (c2, m2)")
  have e0: "seen_names Map.empty = {}" by (simp add: seen_names_def)
  from comp_pass_eq [OF p1] have r1: "c1 = map ?mk (first_by_name {} ?A)"
    and s1: "seen_names m1 = cName ` set ?A"
    by (simp_all add: e0 exact_tests_ex)
  from comp_pass_eq [OF p2] have r2: "c2 = c1 @ map ?mk (first_by_name (cName ` set ?A) ?B)"
    and s2: "seen_names m2 = cName ` set ?A \<union> cName ` set ?B"
    by (simp_all add: s1 prefix_tests_ex)
  from comp_pass_eq [OF p3]
  have r3: "c3 = c2 @ map ?mk (first_by_name (cName ` set ?A \<union> cName ` set ?B) ?C)"
    by (simp add: s2 dist_tests_ex)
  have f: "fst (CompCommands ldist toLower defaultMinDist cmd name) = (if ?d \<noteq> 0 then c3 else c2)"
    by (simp add: CompCommands_def Let_def p1 p2 p3)
  show ?thesis
    unfolding f merged_pass_candidates_def
    by (simp add: r1 r2 r3 first_by_name_append image_Un)
qed

text \<open>
  C8, as amended. \<^verbatim>\<open>CompCommands\<close> returns, with \<^verbatim>\<open>CompNoFileComp\<close>, the completions (name
  and usage) of the candidates of three passes over the children, each in declaration
  order and deduplicated by name against what was added before: (1) the children whose
  name or alias is the token exactly or case-insensitively, (2) those with a
  case-insensitive prefix match, (3) those within the distance threshold, this pass only
  when the threshold is not 0. The names of the result are distinct.
\<close>

theorem CompCommands_three_passes:
  "CompCommands ldist toLower defaultMinDist cmd name =
     (map (\<lambda>c. NewCompletion (cName c) (cUsage c))
        (merged_pass_candidates ldist toLower defaultMinDist cmd name), CompNoFileComp) \<and>
   distinct (map CompName (fst (CompCommands ldist toLower defaultMinDist cmd name)))"
proof -
  have d: "distinct (map cName (merged_pass_candidates ldist toLower defaultMinDist cmd name))"
    unfolding merged_pass_candidates_def using first_by_name_names by blast
  have s: "snd (CompCommands ldist toLower defaultMinDist cmd name) = CompNoFileComp"
    by (simp add: CompCommands_def Let_def)
  from d CompCommands_merged [of ldist toLower defaultMinDist cmd name] s show ?thesis
    by (simp add: prod_eq_iff comp_def)
qed

text \<open>
  C8 as stated fails: with the children \<open>Push\<close> and \<open>push\<close> and the token \<open>push\<close>, the
  exact match \<open>push\<close> comes after \<open>Push\<close>, which matches case-insensitively only; four
  separate passes would give the other order.
\<close>

theorem CompCommands_four_passes_counterexample:
  "map CompName (fst (CompCommands Ldist ToLower 2 demo_cased ''push'')) = [''Push'', ''push''] \<and>
   map cName (four_pass_candidates Ldist ToLower 2 demo_cased ''push'') = [''push'', ''Push'']"
proof -
  have "map CompName (fst (CompCommands Ldist ToLower 2 demo_cased ''push'')) =
      [''Push'', ''push'']"
    by (simp add: CompCommands_def Let_def demo_cased_def exact_tests_def prefix_tests_def
        dist_tests_def addComp_def minDist_of_def ToLower_demo)
  moreover have "map cName (four_pass_candidates Ldist ToLower 2 demo_cased ''push'') =
      [''push'', ''Push'']"
    by (simp add: four_pass_candidates_def demo_cased_def exact_match_def folded_match_def
        prefix_match_def dist_match_def minDist_of_def ToLower_demo)
  ultimately show ?thesis by simp
qed

end
